theory Spec2Isabelle
  imports Main "HOL-Library.Multiset"
begin

section \<open>Data model (types/album.ts)\<close>

text \<open>
  JavaScript numbers that hold identifiers, pages and counts are modelled as \<open>int\<close>,
  strings as \<open>string\<close>, \<open>T | null\<close> as \<open>T option\<close>. The string-literal union
  \<^verbatim>\<open>'up' | 'down'\<close> is a datatype with two constructors. Fields keep the names of the
  interfaces; a name that two interfaces share, or that HOL has taken, gets a prefix or
  a suffix (\<^verbatim>\<open>id\<close> is \<open>vote_id\<close> and \<open>album_id\<close>, \<^verbatim>\<open>from\<close> is \<open>from_item\<close>, the \<^verbatim>\<open>votes\<close>
  of a vote response are \<open>response_votes\<close>).
\<close>

datatype VoteType = Up | Down

record Vote =
  vote_id :: int
  vote_album_id :: int
  user_id :: int
  vote :: VoteType
  vote_created_at :: string
  vote_updated_at :: string

record Album =
  album_id :: int
  song_name :: string
  artist_name :: string
  album_cover :: "string option"
  created_at :: string
  updated_at :: string
  votes :: "Vote list"

record PaginationLink =
  url :: "string option"
  label :: string
  active :: bool

record PaginatedAlbumResponse =
  current_page :: int
  data :: "Album list"
  first_page_url :: string
  from_item :: int
  last_page :: int
  last_page_url :: string
  links :: "PaginationLink list"
  next_page_url :: "string option"
  path :: string
  per_page :: int
  prev_page_url :: "string option"
  to_item :: int
  total :: int

record VoteResponse =
  success :: bool
  response_votes :: "Vote list"

record AlbumFilters =
  page :: int
  search :: string

record VoteCounts =
  up :: int
  down :: int

section \<open>Vote tally (calculateVoteCounts)\<close>

text \<open>
  The reducer passed to \<^verbatim>\<open>votes.reduce\<close>: it increments \<open>up\<close> for an \<open>'up'\<close> vote,
  \<open>down\<close> for a \<open>'down'\<close> vote. \<^verbatim>\<open>reduce\<close> with an initial value is a left fold.
\<close>

definition countVote :: "VoteCounts \<Rightarrow> Vote \<Rightarrow> VoteCounts" where
  "countVote acc v =
     (if vote v = Up then acc\<lparr>up := up acc + 1\<rparr>
      else if vote v = Down then acc\<lparr>down := down acc + 1\<rparr>
      else acc)"

definition calculateVoteCounts :: "Vote list \<Rightarrow> VoteCounts" where
  "calculateVoteCounts vs = foldl countVote \<lparr>up = 0, down = 0\<rparr> vs"

text \<open>\<^verbatim>\<open>getTotalVotes\<close> of the album list view: the net score of an album.\<close>

definition getTotalVotes :: "Album \<Rightarrow> int" where
  "getTotalVotes album =
     (let counts = calculateVoteCounts (votes album) in up counts - down counts)"

section \<open>Ranking (sortedAlbums)\<close>

text \<open>
  \<^verbatim>\<open>Array.prototype.sort\<close> is a library function of the language: ECMAScript specifies
  it to be stable and, when the comparison function is a consistent comparator, to
  return the elements in ascending order of that comparator. Stable insertion, from
  the right, is that function; \<open>comparefn x y \<le> 0\<close> reads "x does not come after y".
\<close>

fun insertSorted :: "('a \<Rightarrow> 'a \<Rightarrow> int) \<Rightarrow> 'a \<Rightarrow> 'a list \<Rightarrow> 'a list" where
  "insertSorted comparefn x [] = [x]"
| "insertSorted comparefn x (y # ys) =
     (if comparefn x y \<le> 0 then x # y # ys else y # insertSorted comparefn x ys)"

definition Array_sort :: "('a \<Rightarrow> 'a \<Rightarrow> int) \<Rightarrow> 'a list \<Rightarrow> 'a list" where
  "Array_sort comparefn xs = foldr (insertSorted comparefn) xs []"

text \<open>
  What ECMAScript requires of \<^verbatim>\<open>String.prototype.localeCompare\<close> (and of any
  comparison function given to \<^verbatim>\<open>sort\<close>): the sign of the result is a total preorder.
\<close>

definition consistent_comparator :: "('a \<Rightarrow> 'a \<Rightarrow> int) \<Rightarrow> bool" where
  "consistent_comparator comparefn \<longleftrightarrow>
     (\<forall>a. comparefn a a = 0) \<and>
     (\<forall>a b. (comparefn a b < 0) = (0 < comparefn b a)) \<and>
     (\<forall>a b c. comparefn a b \<le> 0 \<and> comparefn b c \<le> 0 \<longrightarrow> comparefn a c \<le> 0)"

text \<open>
  The comparison function of the store's \<^verbatim>\<open>sortedAlbums\<close>. The collation of the
  runtime, \<^verbatim>\<open>localeCompare\<close>, is a parameter.
\<close>

definition compareAlbums :: "(string \<Rightarrow> string \<Rightarrow> int) \<Rightarrow> Album \<Rightarrow> Album \<Rightarrow> int" where
  "compareAlbums localeCompare a b =
     (let aVotes = calculateVoteCounts (votes a);
          bVotes = calculateVoteCounts (votes b);
          aTotal = up aVotes - down aVotes;
          bTotal = up bVotes - down bVotes
      in if bTotal \<noteq> aTotal then bTotal - aTotal
         else localeCompare (song_name a) (song_name b))"

text \<open>The comparison function of the album list view's \<^verbatim>\<open>sortedAlbums\<close>.\<close>

definition compareAlbumsView :: "(string \<Rightarrow> string \<Rightarrow> int) \<Rightarrow> Album \<Rightarrow> Album \<Rightarrow> int" where
  "compareAlbumsView localeCompare a b =
     (let aVotes = getTotalVotes a;
          bVotes = getTotalVotes b
      in if bVotes \<noteq> aVotes then bVotes - aVotes
         else localeCompare (song_name a) (song_name b))"

text \<open>
  A concrete collation, used to run the ranking on examples: code-unit order, which is
  what \<^verbatim>\<open>localeCompare\<close> gives on strings of one case without accents.
\<close>

fun ordinalCompare :: "string \<Rightarrow> string \<Rightarrow> int" where
  "ordinalCompare [] [] = 0"
| "ordinalCompare [] (y # ys) = - 1"
| "ordinalCompare (x # xs) [] = 1"
| "ordinalCompare (x # xs) (y # ys) =
     (if x = y then ordinalCompare xs ys
      else if (of_char x :: nat) < of_char y then - 1 else 1)"

section \<open>The remote authority\<close>

text \<open>
  What a \<^verbatim>\<open>catch (err)\<close> receives: an \<^verbatim>\<open>Error\<close> object with its message, or any
  other value. An awaited \<^verbatim>\<open>fetch\<close> either rejects, or resolves to a response whose
  \<^verbatim>\<open>ok\<close> flag is read first and whose \<^verbatim>\<open>json()\<close> promise rejects or resolves to
  the decoded body. The answers of the remote authority are inputs of the model.
\<close>

datatype thrown = ErrorObject string | OtherValue

datatype 'a http = NetworkFailure thrown | Response bool "thrown + 'a"

text \<open>
  The errors of the runtime, the \<^verbatim>\<open>TypeError\<close> of a rejected \<^verbatim>\<open>fetch\<close>, the
  \<^verbatim>\<open>SyntaxError\<close> of \<^verbatim>\<open>json()\<close> and the \<^verbatim>\<open>URIError\<close> of \<^verbatim>\<open>decodeURIComponent\<close>,
  carry a message that is not empty.
\<close>

definition carriesText :: "thrown \<Rightarrow> bool" where
  "carriesText err = (case err of ErrorObject m \<Rightarrow> m \<noteq> [] | OtherValue \<Rightarrow> True)"

text \<open>
  \<^verbatim>\<open>getCookie('XSRF-TOKEN')\<close>, evaluated while the headers of a vote or delete request
  are built: it reads \<^verbatim>\<open>document.cookie\<close> and returns the decoded token (or the empty
  string), or it throws what \<^verbatim>\<open>decodeURIComponent\<close> throws on a malformed value. What
  it does is an input of the model: \<open>Inr\<close> the string returned, \<open>Inl\<close> the value thrown.
\<close>

type_synonym cookie = "thrown + string"

text \<open>The requests issued, in order: each call of \<^verbatim>\<open>fetch\<close> appends one.\<close>

datatype request = GetAlbums int string | PostVote int VoteType | DeleteAlbum int

text \<open>\<^verbatim>\<open>err instanceof Error ? err.message : fallback\<close>\<close>

definition errorMessage :: "thrown \<Rightarrow> string \<Rightarrow> string" where
  "errorMessage err fallback = (case err of ErrorObject m \<Rightarrow> m | OtherValue \<Rightarrow> fallback)"

text \<open>
  The awaits of \<^verbatim>\<open>fetchAlbums\<close> and \<^verbatim>\<open>voteAlbum\<close>: \<^verbatim>\<open>await fetch(...)\<close>, then
  \<^verbatim>\<open>if (!response.ok) throw new Error(msg)\<close>, then \<^verbatim>\<open>await response.json()\<close>.
  \<open>Inl\<close> is the value that reaches the \<^verbatim>\<open>catch\<close> block.
\<close>

definition awaitJson :: "string \<Rightarrow> 'a http \<Rightarrow> thrown + 'a" where
  "awaitJson msg r =
     (case r of
        NetworkFailure err \<Rightarrow> Inl err
      | Response ok body \<Rightarrow> if \<not> ok then Inl (ErrorObject msg) else body)"

text \<open>The await of \<^verbatim>\<open>deleteAlbum\<close>, which never reads the body.\<close>

definition awaitOk :: "string \<Rightarrow> 'a http \<Rightarrow> thrown + unit" where
  "awaitOk msg r =
     (case r of
        NetworkFailure err \<Rightarrow> Inl err
      | Response ok body \<Rightarrow> if \<not> ok then Inl (ErrorObject msg) else Inr ())"

section \<open>The album store (stores/album.ts)\<close>

text \<open>
  The refs of the store and its cache, with the log of requests issued. The log does
  not record the headers of a request (the bearer token, the anti-forgery token).

  Arrays are modelled as values. The visible collection can be the very array of a
  cached page (\<^verbatim>\<open>albums.value = data.data\<close>); the one write into that array, in
  \<^verbatim>\<open>voteAlbum\<close>, is followed at once by \<^verbatim>\<open>cache.clear()\<close>, so no cached page is
  read after it has been written through the alias.
\<close>

record AlbumStore =
  albums :: "Album list"
  loading :: bool
  voteLoading :: "int set"
  error :: "string option"
  totalPages :: int
  currentPage :: int
  searchQuery :: string
  cache :: "string \<rightharpoonup> PaginatedAlbumResponse"
  requests :: "request list"

definition initialStore :: AlbumStore where
  "initialStore =
     \<lparr>albums = [], loading = False, voteLoading = {}, error = None, totalPages = 0,
      currentPage = 1, searchQuery = [], cache = Map.empty, requests = []\<rparr>"

text \<open>
  How an \<^verbatim>\<open>async\<close> function ends: it returns, or it throws (here always the string
  \<^verbatim>\<open>error.value\<close>).
\<close>

type_synonym outcome = "string + unit"

subsection \<open>The cache key\<close>

text \<open>
  \<^verbatim>\<open>Number.prototype.toString\<close> on an integer: positional decimal notation, with a
  leading minus sign below zero (JavaScript switches to exponent notation from
  \<open>10\<^sup>2\<^sup>1\<close> on; page numbers stay far below).
\<close>

definition digitChar :: "nat \<Rightarrow> char" where
  "digitChar d = ''0123456789'' ! d"

fun digits :: "nat \<Rightarrow> string" where
  "digits n = (if n < 10 then [digitChar n] else digits (n div 10) @ [digitChar (n mod 10)])"

definition Number_toString :: "int \<Rightarrow> string" where
  "Number_toString i = (if i < 0 then CHR ''-'' # digits (nat (- i)) else digits (nat i))"

definition getCacheKey :: "AlbumFilters \<Rightarrow> string" where
  "getCacheKey filters = Number_toString (page filters) @ ''-'' @ search filters"

text \<open>
  The cache operations \<^verbatim>\<open>fetchAlbums\<close> performs, \<^verbatim>\<open>cache.get(cacheKey)\<close> and
  \<^verbatim>\<open>cache.set(cacheKey, data)\<close>, as functions of the filter.
\<close>

type_synonym cache_map = "string \<rightharpoonup> PaginatedAlbumResponse"

definition cacheGet :: "cache_map \<Rightarrow> AlbumFilters \<Rightarrow> PaginatedAlbumResponse option" where
  "cacheGet c filters = c (getCacheKey filters)"

definition cacheSet :: "cache_map \<Rightarrow> AlbumFilters \<Rightarrow> PaginatedAlbumResponse \<Rightarrow> cache_map" where
  "cacheSet c filters d = c(getCacheKey filters \<mapsto> d)"

subsection \<open>fetchAlbums\<close>

text \<open>
  An \<^verbatim>\<open>async\<close> function runs to its first \<^verbatim>\<open>await\<close> when it is called, and from
  there to its end when the awaited answer arrives; other calls may run in between.
  \<open>fetchAlbums_call\<close> is the first part (\<open>None\<close>: suspended at the await, the request
  issued), \<open>fetchAlbums_resume\<close> the second, on the store as it is when the answer
  arrives. The second await, of \<^verbatim>\<open>response.json()\<close>, needs no part of its own: on
  every path the function reads and writes the store after its first await in one
  synchronous run, after the first await when the response is not ok and after the
  second otherwise.
\<close>

definition fetchAlbums_call ::
  "AlbumStore \<Rightarrow> AlbumFilters \<Rightarrow> AlbumStore \<times> outcome option" where
  "fetchAlbums_call s filters =
     (case cacheGet (cache s) filters of
        Some cachedData \<Rightarrow>
          (s\<lparr>albums := data cachedData, totalPages := last_page cachedData\<rparr>, Some (Inr ()))
      | None \<Rightarrow>
          (s\<lparr>loading := True, error := None,
             requests := requests s @ [GetAlbums (page filters) (search filters)]\<rparr>, None))"

definition fetchAlbums_resume ::
  "AlbumStore \<Rightarrow> AlbumFilters \<Rightarrow> PaginatedAlbumResponse http \<Rightarrow> AlbumStore \<times> outcome" where
  "fetchAlbums_resume s filters r =
     (let s' = (case awaitJson ''Failed to fetch albums'' r of
                  Inr d \<Rightarrow>
                    s\<lparr>albums := data d, totalPages := last_page d,
                      cache := cacheSet (cache s) filters d\<rparr>
                | Inl err \<Rightarrow> s\<lparr>error := Some (errorMessage err ''An error occurred'')\<rparr>)
      in (s'\<lparr>loading := False\<rparr>, Inr ()))"

text \<open>The whole call when nothing else runs between the request and its answer.\<close>

definition fetchAlbums ::
  "AlbumStore \<Rightarrow> AlbumFilters \<Rightarrow> PaginatedAlbumResponse http \<Rightarrow> AlbumStore \<times> outcome" where
  "fetchAlbums s filters r =
     (case fetchAlbums_call s filters of
        (s', Some res) \<Rightarrow> (s', res)
      | (s', None) \<Rightarrow> fetchAlbums_resume s' filters r)"

subsection \<open>voteAlbum\<close>

text \<open>\<^verbatim>\<open>Array.prototype.findIndex\<close>: the first index whose element passes, or \<open>-1\<close>.\<close>

fun findIndex :: "('a \<Rightarrow> bool) \<Rightarrow> 'a list \<Rightarrow> int" where
  "findIndex P [] = - 1"
| "findIndex P (x # xs) =
     (if P x then 0 else (let i = findIndex P xs in if i = - 1 then - 1 else i + 1))"

text \<open>
  The call up to its await. When \<^verbatim>\<open>getCookie\<close> throws, no request is issued: the
  \<^verbatim>\<open>catch\<close> and \<^verbatim>\<open>finally\<close> blocks run at once and the call ends by throwing.
\<close>

definition voteAlbum_call ::
  "AlbumStore \<Rightarrow> int \<Rightarrow> VoteType \<Rightarrow> cookie \<Rightarrow> AlbumStore \<times> outcome option" where
  "voteAlbum_call s albumId voteType xsrf =
     (if albumId \<in> voteLoading s then (s, Some (Inr ()))
      else
        (let s1 = s\<lparr>voteLoading := insert albumId (voteLoading s), error := None\<rparr>
         in case xsrf of
              Inr token \<Rightarrow>
                (s1\<lparr>requests := requests s1 @ [PostVote albumId voteType]\<rparr>, None)
            | Inl err \<Rightarrow>
                (let msg = errorMessage err ''Failed to vote'';
                     s2 = s1\<lparr>error := Some msg\<rparr>
                 in (s2\<lparr>voteLoading := voteLoading s2 - {albumId}\<rparr>, Some (Inl msg)))))"

definition voteAlbum_resume ::
  "AlbumStore \<Rightarrow> int \<Rightarrow> VoteResponse http \<Rightarrow> AlbumStore \<times> outcome" where
  "voteAlbum_resume s albumId r =
     (case awaitJson ''Failed to vote'' r of
        Inr d \<Rightarrow>
          (let albumIndex = findIndex (\<lambda>a. album_id a = albumId) (albums s);
               s1 = (if albumIndex \<noteq> - 1
                     then s\<lparr>albums := (albums s)[nat albumIndex :=
                                 (albums s ! nat albumIndex)\<lparr>votes := response_votes d\<rparr>]\<rparr>
                     else s);
               s2 = s1\<lparr>cache := Map.empty\<rparr>
           in (s2\<lparr>voteLoading := voteLoading s2 - {albumId}\<rparr>, Inr ()))
      | Inl err \<Rightarrow>
          (let msg = errorMessage err ''Failed to vote'';
               s1 = s\<lparr>error := Some msg\<rparr>
           in (s1\<lparr>voteLoading := voteLoading s1 - {albumId}\<rparr>, Inl msg)))"

definition voteAlbum ::
  "AlbumStore \<Rightarrow> int \<Rightarrow> VoteType \<Rightarrow> cookie \<Rightarrow> VoteResponse http \<Rightarrow> AlbumStore \<times> outcome" where
  "voteAlbum s albumId voteType xsrf r =
     (case voteAlbum_call s albumId voteType xsrf of
        (s', Some res) \<Rightarrow> (s', res)
      | (s', None) \<Rightarrow> voteAlbum_resume s' albumId r)"

subsection \<open>deleteAlbum\<close>

definition deleteAlbum_call ::
  "AlbumStore \<Rightarrow> int \<Rightarrow> cookie \<Rightarrow> AlbumStore \<times> outcome option" where
  "deleteAlbum_call s albumId xsrf =
     (case xsrf of
        Inr token \<Rightarrow> (s\<lparr>requests := requests s @ [DeleteAlbum albumId]\<rparr>, None)
      | Inl err \<Rightarrow>
          (let msg = errorMessage err ''Failed to delete album''
           in (s\<lparr>error := Some msg\<rparr>, Some (Inl msg))))"

definition deleteAlbum_resume ::
  "AlbumStore \<Rightarrow> int \<Rightarrow> unit http \<Rightarrow> AlbumStore \<times> outcome" where
  "deleteAlbum_resume s albumId r =
     (case awaitOk ''Failed to delete album'' r of
        Inr _ \<Rightarrow>
          (s\<lparr>albums := filter (\<lambda>a. album_id a \<noteq> albumId) (albums s), cache := Map.empty\<rparr>,
           Inr ())
      | Inl err \<Rightarrow>
          (let msg = errorMessage err ''Failed to delete album''
           in (s\<lparr>error := Some msg\<rparr>, Inl msg)))"

definition deleteAlbum ::
  "AlbumStore \<Rightarrow> int \<Rightarrow> cookie \<Rightarrow> unit http \<Rightarrow> AlbumStore \<times> outcome" where
  "deleteAlbum s albumId xsrf r =
     (case deleteAlbum_call s albumId xsrf of
        (s', Some res) \<Rightarrow> (s', res)
      | (s', None) \<Rightarrow> deleteAlbum_resume s' albumId r)"

subsection \<open>updateSearch, clearCache and the ranked view\<close>

definition updateSearch :: "AlbumStore \<Rightarrow> string \<Rightarrow> AlbumStore" where
  "updateSearch s query = s\<lparr>searchQuery := query, currentPage := 1\<rparr>"

definition clearCache :: "AlbumStore \<Rightarrow> AlbumStore" where
  "clearCache s = s\<lparr>cache := Map.empty\<rparr>"

text \<open>\<^verbatim>\<open>[...albums.value].sort(...)\<close>: the sort works on a copy of the collection.\<close>

definition sortedAlbums :: "(string \<Rightarrow> string \<Rightarrow> int) \<Rightarrow> AlbumStore \<Rightarrow> Album list" where
  "sortedAlbums localeCompare s = Array_sort (compareAlbums localeCompare) (albums s)"

text \<open>
  The album list view sorts what the store exposes as \<^verbatim>\<open>albums\<close>, the ranked
  collection, once more: \<^verbatim>\<open>[...albumStore.albums].sort(...)\<close>.
\<close>

definition viewSortedAlbums :: "(string \<Rightarrow> string \<Rightarrow> int) \<Rightarrow> AlbumStore \<Rightarrow> Album list" where
  "viewSortedAlbums localeCompare s =
     Array_sort (compareAlbumsView localeCompare) (sortedAlbums localeCompare s)"

section \<open>Overlapping calls\<close>

text \<open>
  The store is used from one thread with cooperative suspension. A world is the store
  together with the calls that are suspended at their await; an event is a call of a
  store function by the view, or the arrival of the answer to a suspended call.
\<close>

record World =
  store :: AlbumStore
  pendingFetches :: "AlbumFilters list"
  pendingVotes :: "int list"
  pendingDeletes :: "int list"

datatype event =
    CallFetch AlbumFilters
  | AnswerFetch AlbumFilters "PaginatedAlbumResponse http"
  | CallVote int VoteType cookie
  | AnswerVote int "VoteResponse http"
  | CallDelete int cookie
  | AnswerDelete int "unit http"
  | CallUpdateSearch string
  | CallClearCache

definition initialWorld :: World where
  "initialWorld =
     \<lparr>store = initialStore, pendingFetches = [], pendingVotes = [], pendingDeletes = []\<rparr>"

text \<open>One event; \<open>None\<close> when an answer arrives for a call that is not suspended.\<close>

fun step :: "World \<Rightarrow> event \<Rightarrow> World option" where
  "step w (CallFetch filters) =
     (case fetchAlbums_call (store w) filters of
        (s', None) \<Rightarrow> Some (w\<lparr>store := s', pendingFetches := pendingFetches w @ [filters]\<rparr>)
      | (s', Some res) \<Rightarrow> Some (w\<lparr>store := s'\<rparr>))"
| "step w (AnswerFetch filters r) =
     (if filters \<in> set (pendingFetches w)
      then Some (w\<lparr>store := fst (fetchAlbums_resume (store w) filters r),
                   pendingFetches := remove1 filters (pendingFetches w)\<rparr>)
      else None)"
| "step w (CallVote albumId voteType xsrf) =
     (case voteAlbum_call (store w) albumId voteType xsrf of
        (s', None) \<Rightarrow> Some (w\<lparr>store := s', pendingVotes := pendingVotes w @ [albumId]\<rparr>)
      | (s', Some res) \<Rightarrow> Some (w\<lparr>store := s'\<rparr>))"
| "step w (AnswerVote albumId r) =
     (if albumId \<in> set (pendingVotes w)
      then Some (w\<lparr>store := fst (voteAlbum_resume (store w) albumId r),
                   pendingVotes := remove1 albumId (pendingVotes w)\<rparr>)
      else None)"
| "step w (CallDelete albumId xsrf) =
     (case deleteAlbum_call (store w) albumId xsrf of
        (s', None) \<Rightarrow> Some (w\<lparr>store := s', pendingDeletes := pendingDeletes w @ [albumId]\<rparr>)
      | (s', Some res) \<Rightarrow> Some (w\<lparr>store := s'\<rparr>))"
| "step w (AnswerDelete albumId r) =
     (if albumId \<in> set (pendingDeletes w)
      then Some (w\<lparr>store := fst (deleteAlbum_resume (store w) albumId r),
                   pendingDeletes := remove1 albumId (pendingDeletes w)\<rparr>)
      else None)"
| "step w (CallUpdateSearch query) = Some (w\<lparr>store := updateSearch (store w) query\<rparr>)"
| "step w CallClearCache = Some (w\<lparr>store := clearCache (store w)\<rparr>)"

fun run :: "World \<Rightarrow> event list \<Rightarrow> World option" where
  "run w [] = Some w"
| "run w (e # es) = (case step w e of None \<Rightarrow> None | Some w' \<Rightarrow> run w' es)"

text \<open>
  The calls suspended in \<^verbatim>\<open>voteAlbum\<close> are those of the ids in \<^verbatim>\<open>voteLoading\<close>, one
  call for each id.
\<close>

definition inFlightInvariant :: "World \<Rightarrow> bool" where
  "inFlightInvariant w \<longleftrightarrow>
     distinct (pendingVotes w) \<and> set (pendingVotes w) = voteLoading (store w)"

section \<open>Example data\<close>

text \<open>
  Album 1 carries one up-vote of user 1; the authority answers a down-vote of user 2
  on it with both votes. The page lists three albums out of rank order.
\<close>

definition exampleVoteUp :: Vote where
  "exampleVoteUp =
     \<lparr>vote_id = 1, vote_album_id = 1, user_id = 1, vote = Up,
      vote_created_at = ''2024-05-01'', vote_updated_at = ''2024-05-01''\<rparr>"

definition exampleVoteDown :: Vote where
  "exampleVoteDown =
     \<lparr>vote_id = 2, vote_album_id = 1, user_id = 2, vote = Down,
      vote_created_at = ''2024-05-02'', vote_updated_at = ''2024-05-02''\<rparr>"

definition exampleAlbum1 :: Album where
  "exampleAlbum1 =
     \<lparr>album_id = 1, song_name = ''Help'', artist_name = ''The Beatles'', album_cover = None,
      created_at = ''2024-04-01'', updated_at = ''2024-04-01'', votes = [exampleVoteUp]\<rparr>"

definition exampleAlbum2 :: Album where
  "exampleAlbum2 =
     \<lparr>album_id = 2, song_name = ''Abbey Road'', artist_name = ''The Beatles'',
      album_cover = Some ''covers/2.png'', created_at = ''2024-04-02'',
      updated_at = ''2024-04-02'', votes = []\<rparr>"

definition exampleAlbum3 :: Album where
  "exampleAlbum3 =
     \<lparr>album_id = 3, song_name = ''Yesterday'', artist_name = ''The Beatles'', album_cover = None,
      created_at = ''2024-04-03'', updated_at = ''2024-04-03'',
      votes = [exampleVoteUp\<lparr>vote_id := 3, vote_album_id := 3\<rparr>]\<rparr>"

definition examplePage :: PaginatedAlbumResponse where
  "examplePage =
     \<lparr>current_page = 1, data = [exampleAlbum2, exampleAlbum3, exampleAlbum1],
      first_page_url = ''api/albums?page=1'', from_item = 1, last_page = 2,
      last_page_url = ''api/albums?page=2'', links = [],
      next_page_url = Some ''api/albums?page=2'', path = ''api/albums'', per_page = 3,
      prev_page_url = None, to_item = 3, total = 5\<rparr>"

definition exampleFilters :: AlbumFilters where
  "exampleFilters = \<lparr>page = 1, search = []\<rparr>"

definition exampleFilters2 :: AlbumFilters where
  "exampleFilters2 = \<lparr>page = 2, search = []\<rparr>"

definition exampleVoteResponse :: VoteResponse where
  "exampleVoteResponse = \<lparr>success = True, response_votes = [exampleVoteUp, exampleVoteDown]\<rparr>"

text \<open>The store after the first page has been fetched from the authority.\<close>

definition exampleStore :: AlbumStore where
  "exampleStore =
     \<lparr>albums = data examplePage, loading = False, voteLoading = {}, error = None,
      totalPages = 2, currentPage = 1, searchQuery = [],
      cache = [getCacheKey exampleFilters \<mapsto> examplePage],
      requests = [GetAlbums 1 []]\<rparr>"

text \<open>The store after a later query for the second page has failed.\<close>

definition exampleErroredStore :: AlbumStore where
  "exampleErroredStore =
     exampleStore\<lparr>error := Some ''Failed to fetch albums'',
                  requests := [GetAlbums 1 [], GetAlbums 2 []]\<rparr>"

definition exampleToken :: cookie where
  "exampleToken = Inr ''eyJpdiI6InQ''"

text \<open>
  Votes on albums 1, 2 and 3 overlap: a second vote on album 1 while the first is
  outstanding, a vote on album 3 whose cookie cannot be decoded, a failed answer for
  album 2, and a third vote on album 1.
\<close>

definition exampleEvents :: "event list" where
  "exampleEvents =
     [CallVote 1 Up exampleToken, CallVote 1 Down exampleToken, CallVote 2 Down exampleToken,
      CallVote 3 Up (Inl (ErrorObject ''URI malformed'')),
      AnswerVote 2 (Response False (Inr exampleVoteResponse)), CallVote 1 Up exampleToken]"

definition exampleWorld :: World where
  "exampleWorld =
     \<lparr>store = initialStore\<lparr>voteLoading := {1}, error := Some ''Failed to vote'',
                 requests := [PostVote 1 Up, PostVote 2 Down]\<rparr>,
      pendingFetches = [], pendingVotes = [1], pendingDeletes = []\<rparr>"

section \<open>Properties of the vote tally\<close>

lemma foldl_countVote_up:
  "up (foldl countVote acc vs) = up acc + int (length (filter (\<lambda>v. vote v = Up) vs))"
  by (induction vs arbitrary: acc) (simp_all add: countVote_def)

lemma foldl_countVote_down:
  "down (foldl countVote acc vs) = down acc + int (length (filter (\<lambda>v. vote v = Down) vs))"
  by (induction vs arbitrary: acc) (simp_all add: countVote_def)

lemma length_up_down:
  "length (filter (\<lambda>v. vote v = Up) vs) + length (filter (\<lambda>v. vote v = Down) vs) = length vs"
proof (induction vs)
  case Nil
  show ?case by simp
next
  case (Cons v vs)
  then show ?case by (cases "vote v") simp_all
qed

lemma compareAlbums_alt:
  "compareAlbums lc a b =
     (if getTotalVotes b \<noteq> getTotalVotes a then getTotalVotes b - getTotalVotes a
      else lc (song_name a) (song_name b))"
  by (simp add: compareAlbums_def getTotalVotes_def Let_def)

lemma compareAlbumsView_eq: "compareAlbumsView lc = compareAlbums lc"
  by (intro ext) (simp add: compareAlbumsView_def compareAlbums_alt Let_def)

text \<open>
  C9. For every vote list, \<^verbatim>\<open>calculateVoteCounts\<close> returns the number of votes whose
  value is \<open>'up'\<close> and the number whose value is \<open>'down'\<close>; the two counts partition the
  list. The function is total and has no failure result. The net score
  \<^verbatim>\<open>getTotalVotes\<close> is \<open>up - down\<close>, and it is the quantity both comparison functions
  of the ranking order by.
\<close>

theorem calculateVoteCounts_tally:
  "up (calculateVoteCounts vs) = int (length (filter (\<lambda>v. vote v = Up) vs)) \<and>
   down (calculateVoteCounts vs) = int (length (filter (\<lambda>v. vote v = Down) vs)) \<and>
   up (calculateVoteCounts vs) + down (calculateVoteCounts vs) = int (length vs) \<and>
   getTotalVotes a = up (calculateVoteCounts (votes a)) - down (calculateVoteCounts (votes a)) \<and>
   compareAlbums lc a b =
     (if getTotalVotes b \<noteq> getTotalVotes a then getTotalVotes b - getTotalVotes a
      else lc (song_name a) (song_name b)) \<and>
   compareAlbumsView lc a b = compareAlbums lc a b"
proof -
  have counts: "up (calculateVoteCounts vs) = int (length (filter (\<lambda>v. vote v = Up) vs))"
    "down (calculateVoteCounts vs) = int (length (filter (\<lambda>v. vote v = Down) vs))"
    by (simp_all add: calculateVoteCounts_def foldl_countVote_up foldl_countVote_down)
  have "up (calculateVoteCounts vs) + down (calculateVoteCounts vs) = int (length vs)"
    using length_up_down [of vs] by (simp only: counts flip: of_nat_add)
  moreover have "getTotalVotes a =
      up (calculateVoteCounts (votes a)) - down (calculateVoteCounts (votes a))"
    by (simp add: getTotalVotes_def Let_def)
  ultimately show ?thesis
    using counts by (simp only: compareAlbums_alt [of lc a b] compareAlbumsView_eq simp_thms)
qed

section \<open>Properties of the ranking\<close>

lemma mset_insertSorted: "mset (insertSorted c x ys) = add_mset x (mset ys)"
  by (induction ys) simp_all

lemma mset_Array_sort: "mset (Array_sort c xs) = mset xs"
  by (induction xs) (simp_all add: Array_sort_def mset_insertSorted)

lemma set_insertSorted: "set (insertSorted c x ys) = insert x (set ys)"
  using mset_insertSorted [of c x ys] by (metis set_mset_add_mset_insert set_mset_mset)

lemma comparator_total: "consistent_comparator c \<Longrightarrow> \<not> c a b \<le> 0 \<Longrightarrow> c b a \<le> 0"
  unfolding consistent_comparator_def by (metis not_le order_less_imp_le)

lemma comparator_trans:
  "consistent_comparator c \<Longrightarrow> c a b \<le> 0 \<Longrightarrow> c b d \<le> 0 \<Longrightarrow> c a d \<le> 0"
  unfolding consistent_comparator_def by blast

lemma comparator_equiv_iff:
  "consistent_comparator c \<Longrightarrow> c a b = 0 \<longleftrightarrow> c a b \<le> 0 \<and> c b a \<le> 0"
  unfolding consistent_comparator_def by (metis less_le not_le order_refl)

lemma sorted_insertSorted:
  assumes "consistent_comparator c" "sorted_wrt (\<lambda>a b. c a b \<le> 0) ys"
  shows "sorted_wrt (\<lambda>a b. c a b \<le> 0) (insertSorted c x ys)"
  using assms(2)
proof (induction ys)
  case Nil
  show ?case by simp
next
  case (Cons y ys)
  show ?case
  proof (cases "c x y \<le> 0")
    case True
    with Cons.prems assms(1) show ?thesis
      by (auto intro: comparator_trans)
  next
    case False
    with Cons assms(1) show ?thesis
      by (auto simp: set_insertSorted dest: comparator_total)
  qed
qed

lemma sorted_Array_sort:
  "consistent_comparator c \<Longrightarrow> sorted_wrt (\<lambda>a b. c a b \<le> 0) (Array_sort c xs)"
  by (induction xs) (simp_all add: Array_sort_def sorted_insertSorted)

text \<open>Stability: an element skipped by the insertion is not equivalent to the new one.\<close>

lemma filter_insertSorted_other:
  "\<not> P x \<Longrightarrow> filter P (insertSorted c x ys) = filter P ys"
  by (induction ys) simp_all

lemma filter_insertSorted_equiv:
  assumes "consistent_comparator c" "c k x = 0"
  shows "filter (\<lambda>y. c k y = 0) (insertSorted c x ys) = x # filter (\<lambda>y. c k y = 0) ys"
proof (induction ys)
  case Nil
  from assms(2) show ?case by simp
next
  case (Cons y ys)
  show ?case
  proof (cases "c x y \<le> 0")
    case True
    with assms(2) show ?thesis by simp
  next
    case False
    have "c k y \<noteq> 0"
    proof
      assume "c k y = 0"
      with assms have "c x k \<le> 0" "c k y \<le> 0"
        by (simp_all add: comparator_equiv_iff)
      with assms(1) have "c x y \<le> 0" by (rule comparator_trans)
      with False show False by simp
    qed
    with False Cons show ?thesis by simp
  qed
qed

lemma stable_Array_sort:
  assumes "consistent_comparator c"
  shows "filter (\<lambda>y. c k y = 0) (Array_sort c xs) = filter (\<lambda>y. c k y = 0) xs"
proof (induction xs)
  case Nil
  show ?case by (simp add: Array_sort_def)
next
  case (Cons x xs)
  have unfold: "Array_sort c (x # xs) = insertSorted c x (Array_sort c xs)"
    by (simp add: Array_sort_def)
  show ?case
  proof (cases "c k x = 0")
    case True
    with assms Cons show ?thesis
      by (simp add: unfold filter_insertSorted_equiv)
  next
    case False
    with Cons show ?thesis
      by (simp add: unfold filter_insertSorted_other)
  qed
qed

text \<open>Sorting a sorted list changes nothing.\<close>

lemma insertSorted_sorted_head:
  "sorted_wrt (\<lambda>a b. c a b \<le> 0) (x # ys) \<Longrightarrow> insertSorted c x ys = x # ys"
  by (cases ys) simp_all

lemma Array_sort_sorted:
  "sorted_wrt (\<lambda>a b. c a b \<le> 0) xs \<Longrightarrow> Array_sort c xs = xs"
proof (induction xs)
  case Nil
  show ?case by (simp add: Array_sort_def)
next
  case (Cons x xs)
  then have "Array_sort c xs = xs" by simp
  then have "Array_sort c (x # xs) = insertSorted c x xs"
    by (simp add: Array_sort_def)
  with Cons.prems show ?case by (simp only: insertSorted_sorted_head)
qed

lemma compareAlbums_le:
  "compareAlbums lc a b \<le> 0 \<longleftrightarrow>
     getTotalVotes b < getTotalVotes a \<or>
     (getTotalVotes a = getTotalVotes b \<and> lc (song_name a) (song_name b) \<le> 0)"
  by (auto simp: compareAlbums_alt)

lemma consistent_compareAlbums:
  assumes "consistent_comparator lc"
  shows "consistent_comparator (compareAlbums lc)"
  unfolding consistent_comparator_def
proof (intro conjI allI impI)
  fix a show "compareAlbums lc a a = 0"
    using assms by (simp add: compareAlbums_alt consistent_comparator_def)
next
  fix a b show "(compareAlbums lc a b < 0) = (0 < compareAlbums lc b a)"
    using assms by (auto simp: compareAlbums_alt consistent_comparator_def)
next
  fix a b c
  assume "compareAlbums lc a b \<le> 0 \<and> compareAlbums lc b c \<le> 0"
  then show "compareAlbums lc a c \<le> 0"
    using assms by (auto simp: compareAlbums_le dest: comparator_trans)
qed

text \<open>The code-unit order is a consistent comparator.\<close>

lemma ordinalCompare_refl: "ordinalCompare a a = 0"
  by (induction a) simp_all

lemma ordinalCompare_sym: "(ordinalCompare a b < 0) = (0 < ordinalCompare b a)"
proof (induction a b rule: ordinalCompare.induct)
  case (4 x xs y ys)
  have "x \<noteq> y \<Longrightarrow> (of_char x :: nat) \<noteq> of_char y" by simp
  with 4 show ?case by auto
qed simp_all

lemma ordinalCompare_le_Nil: "ordinalCompare a [] \<le> 0 \<longleftrightarrow> a = []"
  by (cases a) simp_all

lemma ordinalCompare_trans:
  "ordinalCompare a b \<le> 0 \<Longrightarrow> ordinalCompare b c \<le> 0 \<Longrightarrow> ordinalCompare a c \<le> 0"
proof (induction a c arbitrary: b rule: ordinalCompare.induct)
  case 1
  show ?case by simp
next
  case (2 y ys)
  show ?case by simp
next
  case (3 x xs)
  from 3(2) have "b = []" by (simp add: ordinalCompare_le_Nil)
  with 3(1) show ?case by simp
next
  case (4 x xs z zs)
  show ?case
  proof (cases b)
    case Nil
    with 4(2) show ?thesis by simp
  next
    case (Cons y ys)
    show ?thesis
    proof (cases "x = z")
      case True
      with 4(2,3) Cons
      have "ordinalCompare xs ys \<le> 0 \<and> ordinalCompare ys zs \<le> 0 \<and> x = y \<or>
            (of_char x :: nat) < of_char y \<and> of_char y < (of_char x :: nat)"
        by (auto split: if_splits)
      with 4(1) [OF True] True show ?thesis by auto
    next
      case False
      with 4(2,3) Cons
      have "(of_char x :: nat) \<le> of_char y" "(of_char y :: nat) \<le> of_char z"
        by (auto split: if_splits)
      moreover from False have "(of_char x :: nat) \<noteq> of_char z" by simp
      ultimately have "(of_char x :: nat) < of_char z" by linarith
      with False show ?thesis by simp
    qed
  qed
qed

lemma consistent_ordinalCompare: "consistent_comparator ordinalCompare"
  unfolding consistent_comparator_def
  using ordinalCompare_refl ordinalCompare_sym ordinalCompare_trans by blast

lemmas example_defs = exampleVoteUp_def exampleVoteDown_def exampleAlbum1_def
  exampleAlbum2_def exampleAlbum3_def examplePage_def exampleFilters_def exampleFilters2_def
  exampleVoteResponse_def exampleStore_def initialStore_def

lemma sortedAlbums_example:
  "sortedAlbums ordinalCompare exampleStore = [exampleAlbum1, exampleAlbum3, exampleAlbum2]"
  by (simp add: sortedAlbums_def Array_sort_def compareAlbums_def calculateVoteCounts_def
      countVote_def example_defs Let_def)

text \<open>
  C8. For every collection of albums, the ranking \<^verbatim>\<open>sortedAlbums\<close> returns a
  permutation of the collection (same length, nothing lost or duplicated). With the
  collation of the runtime a consistent comparator, as ECMAScript requires of
  \<^verbatim>\<open>localeCompare\<close>, an album never comes after one of smaller net score, and albums
  of equal net score are in ascending order of their titles under that collation; the
  sort is stable: albums that compare equal keep the order they have in the
  collection; and sorting the ranked list again in the view changes nothing. The
  ranking is a function of the collection that returns a new list; the store is not
  among its results.
\<close>

theorem sortedAlbums_ranking:
  "mset (sortedAlbums localeCompare s) = mset (albums s) \<and>
   length (sortedAlbums localeCompare s) = length (albums s) \<and>
   (consistent_comparator localeCompare \<longrightarrow>
      sorted_wrt (\<lambda>a b. getTotalVotes b < getTotalVotes a \<or>
                    (getTotalVotes a = getTotalVotes b \<and>
                     localeCompare (song_name a) (song_name b) \<le> 0))
        (sortedAlbums localeCompare s) \<and>
      (\<forall>k. filter (\<lambda>a. compareAlbums localeCompare k a = 0) (sortedAlbums localeCompare s) =
           filter (\<lambda>a. compareAlbums localeCompare k a = 0) (albums s)) \<and>
      viewSortedAlbums localeCompare s = sortedAlbums localeCompare s)"
proof (intro conjI impI)
  let ?c = "compareAlbums localeCompare"
  show perm: "mset (sortedAlbums localeCompare s) = mset (albums s)"
    by (simp add: sortedAlbums_def mset_Array_sort)
  then show "length (sortedAlbums localeCompare s) = length (albums s)"
    by (rule mset_eq_length)
  assume "consistent_comparator localeCompare"
  then have cc: "consistent_comparator ?c"
    by (rule consistent_compareAlbums)
  then have sorted: "sorted_wrt (\<lambda>a b. ?c a b \<le> 0) (sortedAlbums localeCompare s)"
    unfolding sortedAlbums_def by (rule sorted_Array_sort)
  then show "sorted_wrt (\<lambda>a b. getTotalVotes b < getTotalVotes a \<or>
                    (getTotalVotes a = getTotalVotes b \<and>
                     localeCompare (song_name a) (song_name b) \<le> 0))
        (sortedAlbums localeCompare s)"
    by (simp only: compareAlbums_le)
  from cc show "\<forall>k. filter (\<lambda>a. ?c k a = 0) (sortedAlbums localeCompare s) =
      filter (\<lambda>a. ?c k a = 0) (albums s)"
    unfolding sortedAlbums_def by (simp add: stable_Array_sort)
  from sorted show "viewSortedAlbums localeCompare s = sortedAlbums localeCompare s"
    by (simp only: viewSortedAlbums_def compareAlbumsView_eq Array_sort_sorted)
qed

theorem sortedAlbums_ranking_witness:
  "consistent_comparator ordinalCompare \<and>
   albums exampleStore = [exampleAlbum2, exampleAlbum3, exampleAlbum1] \<and>
   sortedAlbums ordinalCompare exampleStore = [exampleAlbum1, exampleAlbum3, exampleAlbum2] \<and>
   mset (sortedAlbums ordinalCompare exampleStore) = mset (albums exampleStore) \<and>
   viewSortedAlbums ordinalCompare exampleStore = [exampleAlbum1, exampleAlbum3, exampleAlbum2]"
  using sortedAlbums_ranking [of ordinalCompare exampleStore] consistent_ordinalCompare
  by (simp add: sortedAlbums_example) (simp add: exampleStore_def examplePage_def)

section \<open>Properties of the cache key\<close>

text \<open>
  A decimal numeral has no minus sign in it, so the first minus sign after the digits
  of a key separates the page from the search text.
\<close>

declare digits.simps [simp del]

lemma digits_nonempty: "digits n \<noteq> []"
  by (subst digits.simps) simp

lemma digit_cases: "d < 10 \<Longrightarrow> d \<in> {0, 1, 2, 3, 4, 5, 6, 7, 8, 9 :: nat}"
  by auto

lemma of_char_digitChar: "d < 10 \<Longrightarrow> (of_char (digitChar d) :: nat) = 48 + d"
  by (drule digit_cases) (auto simp: digitChar_def)

lemma digit_not_minus: "d < 10 \<Longrightarrow> digitChar d \<noteq> CHR ''-''"
proof
  assume "d < 10" and "digitChar d = CHR ''-''"
  then have "(of_char (CHR ''-'') :: nat) = 48 + d"
    by (simp only: of_char_digitChar [symmetric])
  then show False by simp
qed

lemma digit_inj:
  assumes "d < 10" "e < 10" "digitChar d = digitChar e"
  shows "d = e"
proof -
  from assms(3) have "(of_char (digitChar d) :: nat) = of_char (digitChar e)"
    by (rule arg_cong)
  with assms(1,2) show ?thesis by (simp only: of_char_digitChar add_left_cancel)
qed

lemma minus_notin_digits: "CHR ''-'' \<notin> set (digits n)"
proof (induction n rule: digits.induct)
  case (1 n)
  show ?case
  proof (cases "n < 10")
    case True
    then show ?thesis by (subst digits.simps) (simp add: digit_not_minus [symmetric])
  next
    case False
    then have "n mod 10 < 10" by simp
    with False 1 show ?thesis
      by (subst digits.simps) (simp add: digit_not_minus [symmetric])
  qed
qed

lemma digits_inj: "digits m = digits n \<Longrightarrow> m = n"
proof (induction m arbitrary: n rule: digits.induct)
  case (1 m)
  show ?case
  proof (cases "m < 10")
    case m: True
    show ?thesis
    proof (cases "n < 10")
      case True
      with m 1(2) show ?thesis
        by (simp add: digits.simps [of m] digits.simps [of n] digit_inj)
    next
      case False
      with m 1(2) have "digits (n div 10) = []"
        by (simp add: digits.simps [of m] digits.simps [of n] Cons_eq_append_conv)
      then show ?thesis by (simp add: digits_nonempty)
    qed
  next
    case m: False
    show ?thesis
    proof (cases "n < 10")
      case True
      with m 1(2) have "digits (m div 10) = []"
        by (simp add: digits.simps [of m] digits.simps [of n] append_eq_Cons_conv)
      then show ?thesis by (simp add: digits_nonempty)
    next
      case False
      with m 1(2) have eq: "digits (m div 10) = digits (n div 10)"
        and last: "digitChar (m mod 10) = digitChar (n mod 10)"
        by (simp_all add: digits.simps [of m] digits.simps [of n])
      from m eq have "m div 10 = n div 10" by (rule 1(1))
      moreover from last have "m mod 10 = n mod 10"
        by (intro digit_inj) simp_all
      ultimately show ?thesis by (metis div_mult_mod_eq)
    qed
  qed
qed

lemma split_at_minus:
  assumes "CHR ''-'' \<notin> set xs" "CHR ''-'' \<notin> set ys"
    and "xs @ CHR ''-'' # s = ys @ CHR ''-'' # t"
  shows "xs = ys \<and> s = t"
  using assms
proof (induction xs arbitrary: ys)
  case Nil
  then show ?case by (cases ys) auto
next
  case (Cons x xs)
  then show ?case by (cases ys) auto
qed

lemma Number_toString_split:
  assumes "Number_toString i @ CHR ''-'' # s = Number_toString j @ CHR ''-'' # t"
  shows "i = j \<and> s = t"
proof -
  have hd_digits: "\<And>n. hd (digits n) \<noteq> CHR ''-''"
    using minus_notin_digits digits_nonempty by (metis hd_in_set)
  consider "i < 0" "j < 0" | "i < 0" "\<not> j < 0" | "\<not> i < 0" "j < 0" | "\<not> i < 0" "\<not> j < 0"
    by blast
  then show ?thesis
  proof cases
    case 1
    with assms have "digits (nat (- i)) @ CHR ''-'' # s = digits (nat (- j)) @ CHR ''-'' # t"
      by (simp add: Number_toString_def)
    then have "digits (nat (- i)) = digits (nat (- j)) \<and> s = t"
      by (intro split_at_minus minus_notin_digits)
    with 1 show ?thesis by (auto dest: digits_inj)
  next
    case 2
    with assms have "CHR ''-'' # digits (nat (- i)) @ CHR ''-'' # s = digits (nat j) @ CHR ''-'' # t"
      by (simp add: Number_toString_def)
    then have "hd (digits (nat j)) = CHR ''-''"
      using digits_nonempty [of "nat j"] by (cases "digits (nat j)") auto
    with hd_digits show ?thesis by blast
  next
    case 3
    with assms have "digits (nat i) @ CHR ''-'' # s = CHR ''-'' # digits (nat (- j)) @ CHR ''-'' # t"
      by (simp add: Number_toString_def)
    then have "hd (digits (nat i)) = CHR ''-''"
      using digits_nonempty [of "nat i"] by (cases "digits (nat i)") auto
    with hd_digits show ?thesis by blast
  next
    case 4
    with assms have "digits (nat i) @ CHR ''-'' # s = digits (nat j) @ CHR ''-'' # t"
      by (simp add: Number_toString_def)
    then have "digits (nat i) = digits (nat j) \<and> s = t"
      by (intro split_at_minus minus_notin_digits)
    with 4 show ?thesis by (auto dest: digits_inj)
  qed
qed

lemma getCacheKey_inj: "getCacheKey f = getCacheKey g \<longleftrightarrow> f = g"
proof
  assume "getCacheKey f = getCacheKey g"
  then have "page f = page g \<and> search f = search g"
    unfolding getCacheKey_def by (intro Number_toString_split) simp
  then show "f = g" by simp
qed simp

text \<open>
  C3. For every filter \<open>f\<close> and page \<open>p\<close>, reading the cache at \<open>f\<close> after storing \<open>p\<close>
  under \<open>f\<close> returns \<open>p\<close>; for every filter \<open>f'\<close> that differs from \<open>f\<close> in its page or
  in its search text, compared exactly, the entry of \<open>f'\<close> is untouched, and absent when
  nothing else was stored. The key \<^verbatim>\<open><page>-<search>\<close> of \<^verbatim>\<open>getCacheKey\<close> is injective
  on filters with an integer page: every integer, so every page from 1 on.
\<close>

theorem cache_key_identity:
  "cacheGet (cacheSet c f p) f = Some p \<and>
   (f' \<noteq> f \<longrightarrow>
      cacheGet (cacheSet c f p) f' = cacheGet c f' \<and>
      cacheGet (cacheSet Map.empty f p) f' = None) \<and>
   ((getCacheKey f = getCacheKey f') = (f = f'))"
proof (intro conjI impI)
  show "cacheGet (cacheSet c f p) f = Some p"
    by (simp add: cacheGet_def cacheSet_def)
next
  assume "f' \<noteq> f"
  then have keys: "getCacheKey f' \<noteq> getCacheKey f"
    by (simp add: getCacheKey_inj)
  then show "cacheGet (cacheSet c f p) f' = cacheGet c f'"
    by (simp add: cacheGet_def cacheSet_def)
  from keys show "cacheGet (cacheSet Map.empty f p) f' = None"
    by (simp add: cacheGet_def cacheSet_def)
next
  show "(getCacheKey f = getCacheKey f') = (f = f')"
    by (rule getCacheKey_inj)
qed

theorem cache_key_identity_witness:
  "exampleFilters2 \<noteq> exampleFilters \<and>
   getCacheKey exampleFilters = ''1-'' \<and> getCacheKey exampleFilters2 = ''2-'' \<and>
   getCacheKey \<lparr>page = 12, search = ''3-a b''\<rparr> = ''12-3-a b'' \<and>
   cacheGet (cacheSet Map.empty exampleFilters examplePage) exampleFilters = Some examplePage \<and>
   cacheGet (cacheSet Map.empty exampleFilters examplePage) exampleFilters2 = None"
  using cache_key_identity [of Map.empty exampleFilters examplePage exampleFilters2]
  by (simp add: exampleFilters_def exampleFilters2_def getCacheKey_def Number_toString_def
      digits.simps digitChar_def cacheGet_def)


section \<open>Properties of the store operations\<close>

subsection \<open>findIndex\<close>

lemma findIndex_ge: "- 1 \<le> findIndex P xs"
  by (induction xs) (simp_all add: Let_def)

lemma findIndex_none: "findIndex P xs = - 1 \<longleftrightarrow> (\<forall>x \<in> set xs. \<not> P x)"
proof (induction xs)
  case Nil
  show ?case by simp
next
  case (Cons x xs)
  then show ?case using findIndex_ge [of P xs] by (auto simp: Let_def)
qed

lemma findIndex_found:
  assumes "findIndex P xs \<noteq> - 1"
  shows "nat (findIndex P xs) < length xs \<and> P (xs ! nat (findIndex P xs)) \<and>
         (\<forall>j < nat (findIndex P xs). \<not> P (xs ! j))"
  using assms
proof (induction xs)
  case Nil
  then show ?case by simp
next
  case (Cons x xs)
  show ?case
  proof (cases "P x")
    case True
    then show ?thesis by simp
  next
    case False
    with Cons.prems have ne: "findIndex P xs \<noteq> - 1"
      by (auto simp: Let_def split: if_splits)
    with findIndex_ge [of P xs] have nonneg: "0 \<le> findIndex P xs" by simp
    then have suc: "nat (findIndex P xs + 1) = Suc (nat (findIndex P xs))" by simp
    from Cons.IH [OF ne] False ne show ?thesis
      by (auto simp: Let_def suc less_Suc_eq_0_disj)
  qed
qed

subsection \<open>What reaches the catch block\<close>

lemma awaitJson_cases:
  "awaitJson msg r = Inl err \<longleftrightarrow>
     r = NetworkFailure err \<or> (\<exists>body. r = Response False body \<and> err = ErrorObject msg) \<or>
     r = Response True (Inl err)"
  by (auto simp: awaitJson_def split: http.splits)

lemma awaitOk_cases:
  "awaitOk msg r = Inl err \<longleftrightarrow>
     r = NetworkFailure err \<or> (\<exists>body. r = Response False body \<and> err = ErrorObject msg)"
  "awaitOk msg r = Inr () \<longleftrightarrow> (\<exists>body. r = Response True body)"
  by (auto simp: awaitOk_def split: http.splits)

lemma errorMessage_nonempty:
  "carriesText err \<Longrightarrow> fallback \<noteq> [] \<Longrightarrow> errorMessage err fallback \<noteq> []"
  by (cases err) (simp_all add: errorMessage_def carriesText_def)

subsection \<open>Evaluating the examples\<close>

lemma getCacheKey_example: "getCacheKey exampleFilters = ''1-''" "getCacheKey exampleFilters2 = ''2-''"
  by (simp_all add: getCacheKey_def Number_toString_def digits.simps digitChar_def
      exampleFilters_def exampleFilters2_def)

lemma cacheGet_exampleStore:
  "cacheGet (cache exampleStore) exampleFilters = Some examplePage"
  "cacheGet (cache exampleStore) exampleFilters2 = None"
  by (simp_all add: cacheGet_def exampleStore_def getCacheKey_example)

lemma fetchAlbums_example:
  "fetchAlbums initialStore exampleFilters (Response True (Inr examplePage)) =
     (exampleStore, Inr ())"
  by (simp add: fetchAlbums_def fetchAlbums_call_def fetchAlbums_resume_def awaitJson_def
      cacheGet_def cacheSet_def Let_def exampleStore_def initialStore_def)
     (simp add: examplePage_def exampleFilters_def)

lemma findIndex_example: "findIndex (\<lambda>a. album_id a = 1) (albums exampleStore) = 2"
  by (simp add: example_defs Let_def)

lemma calculateVoteCounts_example:
  "calculateVoteCounts [exampleVoteUp, exampleVoteDown] = \<lparr>up = 1, down = 1\<rparr>"
  by (simp add: calculateVoteCounts_def countVote_def exampleVoteUp_def exampleVoteDown_def)

lemma voteAlbum_example:
  "voteAlbum exampleStore 1 Down exampleToken (Response True (Inr exampleVoteResponse)) =
     (exampleStore\<lparr>albums := [exampleAlbum2, exampleAlbum3,
                               exampleAlbum1\<lparr>votes := [exampleVoteUp, exampleVoteDown]\<rparr>],
                   cache := Map.empty,
                   requests := [GetAlbums 1 [], PostVote 1 Down]\<rparr>, Inr ())"
  by (simp add: voteAlbum_def voteAlbum_call_def voteAlbum_resume_def awaitJson_def Let_def
      findIndex_example exampleToken_def)
     (simp add: exampleStore_def examplePage_def exampleVoteResponse_def)

lemma run_exampleEvents: "run initialWorld exampleEvents = Some exampleWorld"
  by (simp add: exampleEvents_def exampleWorld_def initialWorld_def initialStore_def
      exampleToken_def voteAlbum_call_def voteAlbum_resume_def awaitJson_def errorMessage_def
      Let_def)

subsection \<open>The in-flight set\<close>

lemma voteLoading_fetchAlbums_call:
  "voteLoading (fst (fetchAlbums_call s f)) = voteLoading s"
  by (simp add: fetchAlbums_call_def split: option.splits)

lemma voteLoading_fetchAlbums_resume:
  "voteLoading (fst (fetchAlbums_resume s f r)) = voteLoading s"
  by (simp add: fetchAlbums_resume_def Let_def split: sum.splits)

lemma voteLoading_deleteAlbum_resume:
  "voteLoading (fst (deleteAlbum_resume s a r)) = voteLoading s"
  by (simp add: deleteAlbum_resume_def Let_def split: sum.splits)

lemma voteLoading_voteAlbum_resume:
  "voteLoading (fst (voteAlbum_resume s a r)) = voteLoading s - {a}"
  by (simp add: voteAlbum_resume_def Let_def split: sum.splits)

lemma step_inFlightInvariant:
  assumes "inFlightInvariant w"
  shows "case step w e of None \<Rightarrow> True | Some w' \<Rightarrow> inFlightInvariant w'"
proof (cases e)
  case (CallFetch f)
  obtain s' res where c: "fetchAlbums_call (store w) f = (s', res)"
    by (cases "fetchAlbums_call (store w) f")
  with voteLoading_fetchAlbums_call [of "store w" f]
  have "voteLoading s' = voteLoading (store w)" by simp
  with assms CallFetch c show ?thesis
    by (cases res) (simp_all add: inFlightInvariant_def)
next
  case (AnswerFetch f r)
  with assms show ?thesis
    by (simp add: inFlightInvariant_def voteLoading_fetchAlbums_resume)
next
  case (CallVote a v x)
  with assms show ?thesis
    by (cases x) (auto simp add: voteAlbum_call_def inFlightInvariant_def Let_def)
next
  case (AnswerVote a r)
  with assms show ?thesis
    by (auto simp add: inFlightInvariant_def voteLoading_voteAlbum_resume)
next
  case (CallDelete a x)
  with assms show ?thesis
    by (cases x) (simp_all add: deleteAlbum_call_def inFlightInvariant_def Let_def)
next
  case (AnswerDelete a r)
  with assms show ?thesis
    by (simp add: inFlightInvariant_def voteLoading_deleteAlbum_resume)
next
  case (CallUpdateSearch q)
  with assms show ?thesis
    by (simp add: updateSearch_def inFlightInvariant_def)
next
  case CallClearCache
  with assms show ?thesis
    by (simp add: clearCache_def inFlightInvariant_def)
qed

lemma run_inFlightInvariant:
  "inFlightInvariant w \<Longrightarrow> run w es = Some w' \<Longrightarrow> inFlightInvariant w'"
proof (induction es arbitrary: w)
  case Nil
  then show ?case by simp
next
  case (Cons e es)
  from Cons.prems(2) obtain w1 where w1: "step w e = Some w1" "run w1 es = Some w'"
    by (auto split: option.splits)
  from step_inFlightInvariant [OF Cons.prems(1), of e] w1(1)
  have "inFlightInvariant w1" by simp
  from Cons.IH [OF this w1(2)] show ?case .
qed

lemma inFlightInvariant_initial: "inFlightInvariant initialWorld"
  by (simp add: inFlightInvariant_def initialWorld_def initialStore_def)

text \<open>
  C1. For every album id, at most one vote call is outstanding at a time. When
  \<^verbatim>\<open>voteAlbum(id, v)\<close> is invoked while \<open>id\<close> is in \<^verbatim>\<open>voteLoading\<close>, the call returns at
  once: the store, with its request log, is unchanged, so no request is issued and
  neither the collection, the cache nor the error changes, and nothing is thrown. In
  every world reached from the initial one by calls and answers in any order, the
  suspended vote calls are for pairwise different ids, and \<^verbatim>\<open>voteLoading\<close> is the set
  of their ids: an id is in the set exactly while its one call is outstanding, and a
  further vote on it in that time changes nothing.
\<close>

theorem voteAlbum_single_flight:
  "(albumId \<in> voteLoading s \<longrightarrow>
      voteAlbum_call s albumId voteType xsrf = (s, Some (Inr ())) \<and>
      voteAlbum s albumId voteType xsrf r = (s, Inr ()))
   \<and> (run initialWorld events = Some w \<longrightarrow>
      distinct (pendingVotes w) \<and> set (pendingVotes w) = voteLoading (store w) \<and>
      (albumId \<in> set (pendingVotes w) \<longrightarrow>
         step w (CallVote albumId voteType xsrf) = Some w))"
proof (intro conjI impI)
  assume "albumId \<in> voteLoading s"
  then show "voteAlbum_call s albumId voteType xsrf = (s, Some (Inr ()))"
    and "voteAlbum s albumId voteType xsrf r = (s, Inr ())"
    by (simp_all add: voteAlbum_def voteAlbum_call_def)
next
  assume "run initialWorld events = Some w"
  with inFlightInvariant_initial have "inFlightInvariant w"
    by (rule run_inFlightInvariant)
  then show inv: "distinct (pendingVotes w)" "set (pendingVotes w) = voteLoading (store w)"
    by (simp_all add: inFlightInvariant_def)
  assume "albumId \<in> set (pendingVotes w)"
  with inv(2) show "step w (CallVote albumId voteType xsrf) = Some w"
    by (simp add: voteAlbum_call_def)
qed

theorem voteAlbum_single_flight_witness:
  "1 \<in> voteLoading (store exampleWorld) \<and>
   voteAlbum_call (store exampleWorld) 1 Down exampleToken =
     (store exampleWorld, Some (Inr ())) \<and>
   run initialWorld exampleEvents = Some exampleWorld \<and>
   pendingVotes exampleWorld = [1] \<and> voteLoading (store exampleWorld) = {1} \<and>
   requests (store exampleWorld) = [PostVote 1 Up, PostVote 2 Down]"
  using voteAlbum_single_flight [of 1 "store exampleWorld" Down exampleToken
      "Response True (Inr exampleVoteResponse)" exampleEvents exampleWorld]
    run_exampleEvents
  by (simp add: exampleWorld_def)

subsection \<open>voteAlbum\<close>

text \<open>
  C2. For every \<^verbatim>\<open>voteAlbum(id, v)\<close> whose remote call succeeds while an album with
  that id is in the visible collection, the votes of the target album (the first one
  with that id) are replaced by the votes the authority returned, whatever they were
  before; every other field of that album and every other album are unchanged; the
  cache is cleared, so reading it at any filter gives nothing; nothing is thrown.
  The same replacement is made on whatever store \<open>t\<close> the answer arrives at, when other
  calls ran in between.
\<close>

theorem voteAlbum_success_replaces_votes:
  assumes "albumId \<notin> voteLoading s"
    and "albumId \<in> album_id ` set (albums s)"
    and "voteAlbum s albumId voteType (Inr token) (Response True (Inr d)) = (s', res)"
    and "i = nat (findIndex (\<lambda>a. album_id a = albumId) (albums s))"
  shows "res = Inr () \<and>
         i < length (albums s) \<and> album_id (albums s ! i) = albumId \<and>
         (\<forall>j < i. album_id (albums s ! j) \<noteq> albumId) \<and>
         length (albums s') = length (albums s) \<and>
         votes (albums s' ! i) = response_votes d \<and>
         albums s' ! i = (albums s ! i)\<lparr>votes := response_votes d\<rparr> \<and>
         (\<forall>j < length (albums s). j \<noteq> i \<longrightarrow> albums s' ! j = albums s ! j) \<and>
         cache s' = Map.empty \<and> (\<forall>f. cacheGet (cache s') f = None) \<and>
         (albumId \<in> album_id ` set (albums t) \<longrightarrow>
            albums (fst (voteAlbum_resume t albumId (Response True (Inr d)))) =
              (albums t)[nat (findIndex (\<lambda>a. album_id a = albumId) (albums t)) :=
                (albums t ! nat (findIndex (\<lambda>a. album_id a = albumId) (albums t)))
                  \<lparr>votes := response_votes d\<rparr>] \<and>
            cache (fst (voteAlbum_resume t albumId (Response True (Inr d)))) = Map.empty)"
proof -
  let ?P = "\<lambda>a. album_id a = albumId"
  from assms(2) have found: "findIndex ?P (albums s) \<noteq> - 1"
    by (auto simp: findIndex_none)
  from findIndex_found [OF this] assms(4)
  have i: "i < length (albums s)" "?P (albums s ! i)" "\<forall>j < i. \<not> ?P (albums s ! j)"
    by simp_all
  from assms(1,3,4) found
  have res: "res = Inr ()"
    and s': "albums s' = (albums s)[i := (albums s ! i)\<lparr>votes := response_votes d\<rparr>]"
            "cache s' = Map.empty"
    by (auto simp: voteAlbum_def voteAlbum_call_def voteAlbum_resume_def awaitJson_def Let_def)
  have later: "albumId \<in> album_id ` set (albums t) \<longrightarrow>
            albums (fst (voteAlbum_resume t albumId (Response True (Inr d)))) =
              (albums t)[nat (findIndex ?P (albums t)) :=
                (albums t ! nat (findIndex ?P (albums t)))\<lparr>votes := response_votes d\<rparr>] \<and>
            cache (fst (voteAlbum_resume t albumId (Response True (Inr d)))) = Map.empty"
  proof
    assume "albumId \<in> album_id ` set (albums t)"
    then have "findIndex ?P (albums t) \<noteq> - 1"
      by (auto simp: findIndex_none)
    then show "albums (fst (voteAlbum_resume t albumId (Response True (Inr d)))) =
              (albums t)[nat (findIndex ?P (albums t)) :=
                (albums t ! nat (findIndex ?P (albums t)))\<lparr>votes := response_votes d\<rparr>] \<and>
            cache (fst (voteAlbum_resume t albumId (Response True (Inr d)))) = Map.empty"
      by (simp add: voteAlbum_resume_def awaitJson_def Let_def)
  qed
  from i s' res later show ?thesis
    by (simp add: cacheGet_def nth_list_update)
qed

theorem voteAlbum_success_replaces_votes_witness:
  "1 \<notin> voteLoading exampleStore \<and> 1 \<in> album_id ` set (albums exampleStore) \<and>
   snd (voteAlbum exampleStore 1 Down exampleToken
          (Response True (Inr exampleVoteResponse))) = Inr () \<and>
   albums (fst (voteAlbum exampleStore 1 Down exampleToken
                  (Response True (Inr exampleVoteResponse)))) =
     [exampleAlbum2, exampleAlbum3, exampleAlbum1\<lparr>votes := [exampleVoteUp, exampleVoteDown]\<rparr>] \<and>
   cache (fst (voteAlbum exampleStore 1 Down exampleToken
                 (Response True (Inr exampleVoteResponse)))) = Map.empty \<and>
   calculateVoteCounts [exampleVoteUp, exampleVoteDown] = \<lparr>up = 1, down = 1\<rparr> \<and>
   getTotalVotes (exampleAlbum1\<lparr>votes := [exampleVoteUp, exampleVoteDown]\<rparr>) = 0"
proof -
  have token: "exampleToken = Inr ''eyJpdiI6InQ''"
    by (simp add: exampleToken_def)
  have call: "voteAlbum exampleStore 1 Down (Inr ''eyJpdiI6InQ'')
      (Response True (Inr exampleVoteResponse)) =
      (fst (voteAlbum exampleStore 1 Down exampleToken (Response True (Inr exampleVoteResponse))),
       snd (voteAlbum exampleStore 1 Down exampleToken (Response True (Inr exampleVoteResponse))))"
    by (simp add: token)
  have idle: "1 \<notin> voteLoading exampleStore" and listed: "1 \<in> album_id ` set (albums exampleStore)"
    by (simp_all add: example_defs)
  have index: "(2::nat) = nat (findIndex (\<lambda>a. album_id a = 1) (albums exampleStore))"
    by (simp add: findIndex_example)
  have answer: "snd (voteAlbum exampleStore 1 Down exampleToken
          (Response True (Inr exampleVoteResponse))) = Inr ()"
    "albums (fst (voteAlbum exampleStore 1 Down exampleToken
                  (Response True (Inr exampleVoteResponse)))) =
     [exampleAlbum2, exampleAlbum3, exampleAlbum1\<lparr>votes := [exampleVoteUp, exampleVoteDown]\<rparr>]"
    "cache (fst (voteAlbum exampleStore 1 Down exampleToken
                 (Response True (Inr exampleVoteResponse)))) = Map.empty"
    by (simp_all add: voteAlbum_example)
  have net: "getTotalVotes (exampleAlbum1\<lparr>votes := [exampleVoteUp, exampleVoteDown]\<rparr>) = 0"
    by (simp add: getTotalVotes_def calculateVoteCounts_example)
  from voteAlbum_success_replaces_votes [OF idle listed call index]
    idle listed answer calculateVoteCounts_example net
  show ?thesis by blast
qed

text \<open>
  C10. When \<^verbatim>\<open>voteAlbum(id, v)\<close> is called for an id that no album of the visible
  collection has and the remote call succeeds, the call returns without throwing:
  the collection is unchanged, the cache is cleared all the same, and the id is no
  longer in \<^verbatim>\<open>voteLoading\<close>; so it is on whatever store \<open>t\<close> the answer arrives at.
\<close>

theorem voteAlbum_absent_album:
  assumes "albumId \<notin> voteLoading s"
    and "albumId \<notin> album_id ` set (albums s)"
    and "voteAlbum s albumId voteType (Inr token) (Response True (Inr d)) = (s', res)"
  shows "res = Inr () \<and> albums s' = albums s \<and> cache s' = Map.empty \<and>
         albumId \<notin> voteLoading s' \<and> voteLoading s' = voteLoading s \<and>
         requests s' = requests s @ [PostVote albumId voteType] \<and>
         (albumId \<notin> album_id ` set (albums t) \<longrightarrow>
            voteAlbum_resume t albumId (Response True (Inr d)) =
              (t\<lparr>cache := Map.empty, voteLoading := voteLoading t - {albumId}\<rparr>, Inr ()))"
proof -
  from assms(2) have "findIndex (\<lambda>a. album_id a = albumId) (albums s) = - 1"
    by (auto simp: findIndex_none)
  with assms(1,3) have now: "res = Inr () \<and> albums s' = albums s \<and> cache s' = Map.empty \<and>
         albumId \<notin> voteLoading s' \<and> voteLoading s' = voteLoading s \<and>
         requests s' = requests s @ [PostVote albumId voteType]"
    by (auto simp: voteAlbum_def voteAlbum_call_def voteAlbum_resume_def awaitJson_def Let_def)
  have "albumId \<notin> album_id ` set (albums t) \<longrightarrow>
            voteAlbum_resume t albumId (Response True (Inr d)) =
              (t\<lparr>cache := Map.empty, voteLoading := voteLoading t - {albumId}\<rparr>, Inr ())"
  proof
    assume "albumId \<notin> album_id ` set (albums t)"
    then have "findIndex (\<lambda>a. album_id a = albumId) (albums t) = - 1"
      by (auto simp: findIndex_none)
    then show "voteAlbum_resume t albumId (Response True (Inr d)) =
              (t\<lparr>cache := Map.empty, voteLoading := voteLoading t - {albumId}\<rparr>, Inr ())"
      by (simp add: voteAlbum_resume_def awaitJson_def Let_def)
  qed
  with now show ?thesis by blast
qed

theorem voteAlbum_absent_album_witness:
  "7 \<notin> voteLoading exampleStore \<and> 7 \<notin> album_id ` set (albums exampleStore) \<and>
   voteAlbum exampleStore 7 Up (Inr ''eyJpdiI6InQ'') (Response True (Inr exampleVoteResponse)) =
     (exampleStore\<lparr>cache := Map.empty, requests := [GetAlbums 1 [], PostVote 7 Up]\<rparr>, Inr ())"
  using voteAlbum_absent_album [of 7 exampleStore Up "''eyJpdiI6InQ''" exampleVoteResponse
      "fst (voteAlbum exampleStore 7 Up (Inr ''eyJpdiI6InQ'')
             (Response True (Inr exampleVoteResponse)))"
      "snd (voteAlbum exampleStore 7 Up (Inr ''eyJpdiI6InQ'')
             (Response True (Inr exampleVoteResponse)))"]
  by (simp add: voteAlbum_def voteAlbum_call_def voteAlbum_resume_def awaitJson_def Let_def
      example_defs)

text \<open>
  C6. When the remote call of \<^verbatim>\<open>voteAlbum\<close> fails (the fetch is rejected, the response
  is not ok, or its body cannot be decoded), the error state is set to a message that
  is not empty: \<^verbatim>\<open>'Failed to vote'\<close> when the response is not ok or the thrown value
  is not an \<^verbatim>\<open>Error\<close>, otherwise the message of the error of the runtime. The message is
  thrown to the caller after it has been recorded; the collection, so the votes of the
  target album, and the cache are unchanged, also on whatever store \<open>t\<close> the answer
  arrives at. The id is removed from \<^verbatim>\<open>voteLoading\<close> however the call ends, on success
  and on failure of the remote call as when building the request fails, so the next
  vote on that album passes the guard and issues its request.
\<close>

theorem voteAlbum_failure:
  assumes "albumId \<notin> voteLoading s"
    and "r = NetworkFailure err \<and> msg = errorMessage err ''Failed to vote'' \<or>
         r = Response False body \<and> msg = ''Failed to vote'' \<or>
         r = Response True (Inl err) \<and> msg = errorMessage err ''Failed to vote''"
    and "carriesText err"
    and "voteAlbum s albumId voteType (Inr token) r = (s', res)"
  shows "error s' = Some msg \<and> msg \<noteq> [] \<and> res = Inl msg \<and>
         albums s' = albums s \<and> cache s' = cache s \<and>
         requests s' = requests s @ [PostVote albumId voteType] \<and>
         albumId \<notin> voteLoading s' \<and>
         albumId \<notin> voteLoading (fst (voteAlbum s albumId voteType xsrf' r')) \<and>
         albumId \<notin> voteLoading (fst (voteAlbum_resume t albumId r')) \<and>
         albums (fst (voteAlbum_resume t albumId r)) = albums t \<and>
         error (fst (voteAlbum_resume t albumId r)) = Some msg \<and>
         snd (voteAlbum_resume t albumId r) = Inl msg \<and>
         voteAlbum_call s' albumId voteType' (Inr token') =
           (s'\<lparr>voteLoading := insert albumId (voteLoading s'), error := None,
               requests := requests s' @ [PostVote albumId voteType']\<rparr>, None)"
proof -
  from assms(2) have thrown: "\<exists>e. awaitJson ''Failed to vote'' r = Inl e \<and>
      msg = errorMessage e ''Failed to vote''"
    by (auto simp: awaitJson_def errorMessage_def)
  from assms(2,3) have nonempty: "msg \<noteq> []"
    using errorMessage_nonempty [of err "''Failed to vote''"] by auto
  from thrown assms(1,4)
  have s': "s' = s\<lparr>voteLoading := voteLoading s - {albumId}, error := Some msg,
       requests := requests s @ [PostVote albumId voteType]\<rparr>"
    and res: "res = Inl msg"
    by (auto simp: voteAlbum_def voteAlbum_call_def voteAlbum_resume_def Let_def)
  have again: "albumId \<notin> voteLoading (fst (voteAlbum s albumId voteType xsrf' r'))"
    using assms(1)
    by (cases xsrf')
       (simp_all add: voteAlbum_def voteAlbum_call_def voteLoading_voteAlbum_resume Let_def)
  have resume: "albumId \<notin> voteLoading (fst (voteAlbum_resume t albumId r'))"
    by (simp add: voteLoading_voteAlbum_resume)
  from thrown have later: "albums (fst (voteAlbum_resume t albumId r)) = albums t"
    "error (fst (voteAlbum_resume t albumId r)) = Some msg"
    "snd (voteAlbum_resume t albumId r) = Inl msg"
    by (auto simp: voteAlbum_resume_def Let_def)
  from s' res nonempty again resume later show ?thesis
    by (simp add: voteAlbum_call_def Let_def)
qed

theorem voteAlbum_failure_witness:
  "1 \<notin> voteLoading exampleStore \<and> carriesText (ErrorObject ''Load failed'') \<and>
   voteAlbum exampleStore 1 Down (Inr ''eyJpdiI6InQ'') (NetworkFailure (ErrorObject ''Load failed'')) =
     (exampleStore\<lparr>error := Some ''Load failed'',
                   requests := [GetAlbums 1 [], PostVote 1 Down]\<rparr>, Inl ''Load failed'') \<and>
   voteAlbum exampleStore 1 Down (Inr ''eyJpdiI6InQ'') (Response False (Inr exampleVoteResponse)) =
     (exampleStore\<lparr>error := Some ''Failed to vote'',
                   requests := [GetAlbums 1 [], PostVote 1 Down]\<rparr>, Inl ''Failed to vote'') \<and>
   voteAlbum exampleStore 1 Down (Inl (ErrorObject ''URI malformed''))
       (Response True (Inr exampleVoteResponse)) =
     (exampleStore\<lparr>error := Some ''URI malformed''\<rparr>, Inl ''URI malformed'')"
proof -
  have idle: "1 \<notin> voteLoading exampleStore"
    by (simp add: exampleStore_def)
  have runtime: "carriesText (ErrorObject ''Load failed'')"
    by (simp add: carriesText_def)
  have shape: "(NetworkFailure (ErrorObject ''Load failed'') :: VoteResponse http) =
        NetworkFailure (ErrorObject ''Load failed'') \<and>
        ''Load failed'' = errorMessage (ErrorObject ''Load failed'') ''Failed to vote'' \<or>
      NetworkFailure (ErrorObject ''Load failed'') = Response False (Inr exampleVoteResponse) \<and>
        ''Load failed'' = ''Failed to vote'' \<or>
      NetworkFailure (ErrorObject ''Load failed'') = Response True (Inl (ErrorObject ''Load failed'')) \<and>
        ''Load failed'' = errorMessage (ErrorObject ''Load failed'') ''Failed to vote''"
    by (simp add: errorMessage_def)
  have rejected: "voteAlbum exampleStore 1 Down (Inr ''eyJpdiI6InQ'')
      (NetworkFailure (ErrorObject ''Load failed'')) =
     (exampleStore\<lparr>error := Some ''Load failed'',
                   requests := [GetAlbums 1 [], PostVote 1 Down]\<rparr>, Inl ''Load failed'')"
    by (simp add: voteAlbum_def voteAlbum_call_def voteAlbum_resume_def awaitJson_def Let_def
        errorMessage_def exampleStore_def)
  have notok: "voteAlbum exampleStore 1 Down (Inr ''eyJpdiI6InQ'')
      (Response False (Inr exampleVoteResponse)) =
     (exampleStore\<lparr>error := Some ''Failed to vote'',
                   requests := [GetAlbums 1 [], PostVote 1 Down]\<rparr>, Inl ''Failed to vote'')"
    by (simp add: voteAlbum_def voteAlbum_call_def voteAlbum_resume_def awaitJson_def Let_def
        errorMessage_def exampleStore_def)
  have undecodable: "voteAlbum exampleStore 1 Down (Inl (ErrorObject ''URI malformed''))
       (Response True (Inr exampleVoteResponse)) =
     (exampleStore\<lparr>error := Some ''URI malformed''\<rparr>, Inl ''URI malformed'')"
    by (simp add: voteAlbum_def voteAlbum_call_def Let_def errorMessage_def exampleStore_def)
  from voteAlbum_failure [OF idle shape runtime rejected] idle runtime rejected notok undecodable
  show ?thesis by blast
qed

subsection \<open>fetchAlbums\<close>



text \<open>A call that finds the page in the cache: what it sets, and what it leaves.\<close>

lemma fetchAlbums_cache_hit:
  assumes "cacheGet (cache t) filters = Some d"
  shows "fetchAlbums t filters r = (t\<lparr>albums := data d, totalPages := last_page d\<rparr>, Inr ())"
  using assms by (simp add: fetchAlbums_def fetchAlbums_call_def)

text \<open>
  C4. The claim has a second query with the same filter, no mutation in between,
  served from the cache without a request, showing the same page and leaving the
  session ready. The code at this input: the first page is fetched; a query for the
  second page fails, which is no mutation and leaves the cache alone; the query for the
  first page is repeated. The repeated query issues no request and shows the cached
  page, but its branch returns before the reset \<^verbatim>\<open>error.value = null\<close> that the other
  branch of \<^verbatim>\<open>fetchAlbums\<close> makes: the store is left as the failed query left it, with
  its error, and the session is not ready.
\<close>

theorem fetchAlbums_cache_hit_keeps_error:
  "fetchAlbums initialStore exampleFilters (Response True (Inr examplePage)) =
     (exampleStore, Inr ()) \<and>
   fetchAlbums exampleStore exampleFilters2 (Response False (Inr examplePage)) =
     (exampleErroredStore, Inr ()) \<and>
   fetchAlbums exampleErroredStore exampleFilters (Response True (Inr examplePage)) =
     (exampleErroredStore, Inr ()) \<and>
   error exampleErroredStore = Some ''Failed to fetch albums''"
proof -
  have miss: "fetchAlbums exampleStore exampleFilters2 (Response False (Inr examplePage)) =
      (exampleErroredStore, Inr ())"
    by (simp add: fetchAlbums_def fetchAlbums_call_def fetchAlbums_resume_def awaitJson_def
        Let_def errorMessage_def cacheGet_exampleStore exampleErroredStore_def)
       (simp add: exampleStore_def exampleFilters2_def)
  have cached: "cacheGet (cache exampleErroredStore) exampleFilters = Some examplePage"
    by (simp add: exampleErroredStore_def cacheGet_exampleStore)
  have hit: "fetchAlbums exampleErroredStore exampleFilters (Response True (Inr examplePage)) =
      (exampleErroredStore, Inr ())"
    by (simp add: fetchAlbums_def fetchAlbums_call_def cached)
       (simp add: exampleErroredStore_def exampleStore_def examplePage_def)
  have "error exampleErroredStore = Some ''Failed to fetch albums''"
    by (simp add: exampleErroredStore_def)
  with fetchAlbums_example miss hit show ?thesis by simp
qed

subsection \<open>deleteAlbum\<close>

text \<open>
  C7. For every \<^verbatim>\<open>deleteAlbum(id)\<close>: when the remote call succeeds (a response that is
  ok), every album with that id is removed from the visible collection, the others keep
  their order, and the cache is cleared, so that the next query, for any filter, issues
  a request. When the call fails (the fetch is rejected, the response is not ok, or the
  request cannot be built because the cookie cannot be decoded), the collection and the
  cache are unchanged, the error state is set to a message, which is not empty when it
  is the code's own or that of an error of the runtime, and that message is thrown to
  the caller. These are all the ways a call can end, and the same holds on whatever
  store \<open>t\<close> the answer arrives at.
\<close>

theorem deleteAlbum_contract:
  assumes "deleteAlbum s albumId xsrf r = (s', res)"
  shows "(xsrf = Inr token \<and> r = Response True body \<longrightarrow>
            res = Inr () \<and>
            albums s' = filter (\<lambda>a. album_id a \<noteq> albumId) (albums s) \<and>
            albumId \<notin> album_id ` set (albums s') \<and>
            cache s' = Map.empty \<and> error s' = error s \<and>
            requests s' = requests s @ [DeleteAlbum albumId] \<and>
            (\<forall>f. fetchAlbums_call s' f =
                   (s'\<lparr>loading := True, error := None,
                       requests := requests s' @ [GetAlbums (page f) (search f)]\<rparr>, None)))
       \<and> (xsrf = Inr token \<and> r = NetworkFailure err \<and>
              msg = errorMessage err ''Failed to delete album'' \<or>
           xsrf = Inr token \<and> r = Response False body \<and> msg = ''Failed to delete album'' \<or>
           xsrf = Inl err \<and> msg = errorMessage err ''Failed to delete album'' \<longrightarrow>
            res = Inl msg \<and> error s' = Some msg \<and>
            albums s' = albums s \<and> cache s' = cache s \<and>
            (carriesText err \<longrightarrow> msg \<noteq> []) \<and>
            (xsrf = Inl err \<longrightarrow> requests s' = requests s))
       \<and> deleteAlbum_resume t albumId (Response True body) =
            (t\<lparr>albums := filter (\<lambda>a. album_id a \<noteq> albumId) (albums t), cache := Map.empty\<rparr>,
             Inr ())
       \<and> deleteAlbum_resume t albumId (Response False body) =
            (t\<lparr>error := Some ''Failed to delete album''\<rparr>, Inl ''Failed to delete album'')
       \<and> deleteAlbum_resume t albumId (NetworkFailure err) =
            (t\<lparr>error := Some (errorMessage err ''Failed to delete album'')\<rparr>,
             Inl (errorMessage err ''Failed to delete album''))"
proof (intro conjI impI)
  assume ok: "xsrf = Inr token \<and> r = Response True body"
  with assms have s': "s' = s\<lparr>requests := requests s @ [DeleteAlbum albumId],
      albums := filter (\<lambda>a. album_id a \<noteq> albumId) (albums s), cache := Map.empty\<rparr>"
    and res: "res = Inr ()"
    by (auto simp: deleteAlbum_def deleteAlbum_call_def deleteAlbum_resume_def awaitOk_def)
  from res show "res = Inr ()" .
  from s' show "albums s' = filter (\<lambda>a. album_id a \<noteq> albumId) (albums s)"
    and "albumId \<notin> album_id ` set (albums s')"
    and "cache s' = Map.empty" and "error s' = error s"
    and "requests s' = requests s @ [DeleteAlbum albumId]"
    by auto
  from s' show "\<forall>f. fetchAlbums_call s' f =
                   (s'\<lparr>loading := True, error := None,
                       requests := requests s' @ [GetAlbums (page f) (search f)]\<rparr>, None)"
    by (simp add: fetchAlbums_call_def cacheGet_def)
next
  assume failed: "xsrf = Inr token \<and> r = NetworkFailure err \<and>
              msg = errorMessage err ''Failed to delete album'' \<or>
           xsrf = Inr token \<and> r = Response False body \<and> msg = ''Failed to delete album'' \<or>
           xsrf = Inl err \<and> msg = errorMessage err ''Failed to delete album''"
  with assms have res: "res = Inl msg" and err: "error s' = Some msg"
    and same: "albums s' = albums s" "cache s' = cache s"
    by (auto simp: deleteAlbum_def deleteAlbum_call_def deleteAlbum_resume_def awaitOk_def
        errorMessage_def Let_def)
  from res show "res = Inl msg" .
  from err show "error s' = Some msg" .
  from same show "albums s' = albums s" and "cache s' = cache s" .
  show "msg \<noteq> []" if "carriesText err"
    using failed that errorMessage_nonempty [of err "''Failed to delete album''"] by auto
  show "requests s' = requests s" if "xsrf = Inl err"
    using assms that by (auto simp: deleteAlbum_def deleteAlbum_call_def Let_def)
next
  show "deleteAlbum_resume t albumId (Response True body) =
            (t\<lparr>albums := filter (\<lambda>a. album_id a \<noteq> albumId) (albums t), cache := Map.empty\<rparr>,
             Inr ())"
    by (simp add: deleteAlbum_resume_def awaitOk_def)
next
  show "deleteAlbum_resume t albumId (Response False body) =
            (t\<lparr>error := Some ''Failed to delete album''\<rparr>, Inl ''Failed to delete album'')"
    by (simp add: deleteAlbum_resume_def awaitOk_def errorMessage_def Let_def)
next
  show "deleteAlbum_resume t albumId (NetworkFailure err) =
            (t\<lparr>error := Some (errorMessage err ''Failed to delete album'')\<rparr>,
             Inl (errorMessage err ''Failed to delete album''))"
    by (simp add: deleteAlbum_resume_def awaitOk_def Let_def)
qed

theorem deleteAlbum_contract_witness:
  "deleteAlbum exampleStore 1 (Inr ''eyJpdiI6InQ'') (Response True (Inr ())) =
     (exampleStore\<lparr>albums := [exampleAlbum2, exampleAlbum3], cache := Map.empty,
                   requests := [GetAlbums 1 [], DeleteAlbum 1]\<rparr>, Inr ()) \<and>
   fetchAlbums_call
       (exampleStore\<lparr>albums := [exampleAlbum2, exampleAlbum3], cache := Map.empty,
                     requests := [GetAlbums 1 [], DeleteAlbum 1]\<rparr>) exampleFilters =
     (exampleStore\<lparr>albums := [exampleAlbum2, exampleAlbum3], loading := True,
                   cache := Map.empty,
                   requests := [GetAlbums 1 [], DeleteAlbum 1, GetAlbums 1 []]\<rparr>, None) \<and>
   deleteAlbum exampleStore 1 (Inr ''eyJpdiI6InQ'') (Response False (Inr ())) =
     (exampleStore\<lparr>error := Some ''Failed to delete album'',
                   requests := [GetAlbums 1 [], DeleteAlbum 1]\<rparr>, Inl ''Failed to delete album'') \<and>
   deleteAlbum exampleStore 1 (Inr ''eyJpdiI6InQ'') (NetworkFailure (ErrorObject ''Load failed'')) =
     (exampleStore\<lparr>error := Some ''Load failed'',
                   requests := [GetAlbums 1 [], DeleteAlbum 1]\<rparr>, Inl ''Load failed'') \<and>
   deleteAlbum exampleStore 1 (Inl (ErrorObject ''URI malformed'')) (Response True (Inr ())) =
     (exampleStore\<lparr>error := Some ''URI malformed''\<rparr>, Inl ''URI malformed'')"
proof -
  have ok: "deleteAlbum exampleStore 1 (Inr ''eyJpdiI6InQ'') (Response True (Inr ())) =
     (exampleStore\<lparr>albums := [exampleAlbum2, exampleAlbum3], cache := Map.empty,
                   requests := [GetAlbums 1 [], DeleteAlbum 1]\<rparr>, Inr ())"
    by (simp add: deleteAlbum_def deleteAlbum_call_def deleteAlbum_resume_def awaitOk_def)
       (simp add: example_defs)
  have notok: "deleteAlbum exampleStore 1 (Inr ''eyJpdiI6InQ'') (Response False (Inr ())) =
     (exampleStore\<lparr>error := Some ''Failed to delete album'',
                   requests := [GetAlbums 1 [], DeleteAlbum 1]\<rparr>, Inl ''Failed to delete album'')"
    by (simp add: deleteAlbum_def deleteAlbum_call_def deleteAlbum_resume_def awaitOk_def
        errorMessage_def Let_def exampleStore_def)
  have rejected: "deleteAlbum exampleStore 1 (Inr ''eyJpdiI6InQ'')
      (NetworkFailure (ErrorObject ''Load failed'')) =
     (exampleStore\<lparr>error := Some ''Load failed'',
                   requests := [GetAlbums 1 [], DeleteAlbum 1]\<rparr>, Inl ''Load failed'')"
    by (simp add: deleteAlbum_def deleteAlbum_call_def deleteAlbum_resume_def awaitOk_def
        errorMessage_def Let_def exampleStore_def)
  have undecodable: "deleteAlbum exampleStore 1 (Inl (ErrorObject ''URI malformed''))
      (Response True (Inr ())) =
     (exampleStore\<lparr>error := Some ''URI malformed''\<rparr>, Inl ''URI malformed'')"
    by (simp add: deleteAlbum_def deleteAlbum_call_def errorMessage_def Let_def)
  let ?s = "exampleStore\<lparr>albums := [exampleAlbum2, exampleAlbum3], cache := Map.empty,
                     requests := [GetAlbums 1 [], DeleteAlbum 1]\<rparr>"
  from deleteAlbum_contract [OF ok, where token = "''eyJpdiI6InQ''" and body = "Inr ()"]
  have "\<forall>f. fetchAlbums_call ?s f =
      (?s\<lparr>loading := True, error := None,
          requests := requests ?s @ [GetAlbums (page f) (search f)]\<rparr>, None)"
    by blast
  then have "fetchAlbums_call ?s exampleFilters =
      (?s\<lparr>loading := True, error := None,
          requests := requests ?s @ [GetAlbums (page exampleFilters) (search exampleFilters)]\<rparr>,
       None)"
    by (rule spec)
  then have next_query: "fetchAlbums_call
       (exampleStore\<lparr>albums := [exampleAlbum2, exampleAlbum3], cache := Map.empty,
                     requests := [GetAlbums 1 [], DeleteAlbum 1]\<rparr>) exampleFilters =
     (exampleStore\<lparr>albums := [exampleAlbum2, exampleAlbum3], loading := True,
                   cache := Map.empty,
                   requests := [GetAlbums 1 [], DeleteAlbum 1, GetAlbums 1 []]\<rparr>, None)"
    by (simp add: exampleStore_def exampleFilters_def)
  from ok next_query notok rejected undecodable show ?thesis by blast
qed

end
